theory Spec2Isabelle
  imports Main
begin

section \<open>Postman collection results to Qase: the data\<close>

text \<open>
  The repository holds three variants of one script: the named file
  \<^verbatim>\<open>submit_collection_results_to_qase.js\<close> (results posted one by one), \<^verbatim>\<open>part_000\<close>
  (results posted as one batch, pattern with the \<^verbatim>\<open>i\<close> flag) and \<^verbatim>\<open>part_001\<close>
  (no unescaping, overall status taken from the assertions). Definitions without a suffix
  embed the named file; a suffix \<open>_part_000\<close> or \<open>_part_001\<close> marks the embedding of a
  variant where its text differs.

  Strings are byte lists (UTF-8). Every pattern of the scripts is made of ASCII characters,
  which never occur inside a multi-byte sequence, so matching bytes agrees with matching
  UTF-16 code units. Numbers that the scripts obtain from \<^verbatim>\<open>parseInt\<close> or read as a step
  position are natural numbers; \<^verbatim>\<open>null\<close> and \<^verbatim>\<open>undefined\<close> are \<open>None\<close>.
\<close>

record js_error =
  message :: string

record assertion =
  name :: string
  error :: "js_error option"

record execution =
  name :: string
  assertions :: "assertion list"

record caseStep =
  position :: "nat option"
  action :: "string option"
  expected_result :: "string option"

text \<open>
  The step objects and result payloads that the scripts build. The named file and
  \<^verbatim>\<open>part_001\<close> post \<^verbatim>\<open>{case_id, status, comment, steps}\<close> with flat steps;
  \<^verbatim>\<open>part_000\<close> nests \<^verbatim>\<open>data\<close> and \<^verbatim>\<open>execution\<close> inside a step and posts
  \<^verbatim>\<open>{title, testops_id, execution, fields, steps}\<close> (the field \<^verbatim>\<open>fields\<close> is written
  \<open>fields'\<close>, the record package keeps the plain name for itself).
\<close>

record stepQase =
  position :: nat
  action :: "string option"
  expected_result :: string
  status :: string

record result =
  case_id :: nat
  status :: string
  comment :: string
  steps :: "stepQase list"

record step_data =
  action :: "string option"
  expected_result :: string

record step_execution =
  status :: string

record stepQase_part_000 =
  position :: nat
  data :: step_data
  execution :: step_execution

record result_fields =
  description :: string

record tc_result =
  title :: string
  testops_id :: nat
  execution :: step_execution
  fields' :: result_fields
  steps :: "stepQase_part_000 list"

text \<open>
  A rejected request or a malformed response body is an error value; the scripts catch it
  only at top level, where the process exits with code 1.
\<close>

datatype error = RemoteError

text \<open>
  The remote service as the scripts see it: \<^verbatim>\<open>axios.get\<close> on a case yields
  \<^verbatim>\<open>response.data.result.steps\<close> (absent: \<open>None\<close>) or fails; \<^verbatim>\<open>axios.post\<close> of a payload
  to a run succeeds (\<open>None\<close>) or fails.
\<close>

type_synonym axios_get = "nat \<Rightarrow> error + caseStep list option"

section \<open>unescapeMarkdown\<close>

text \<open>
  The character class of \<^verbatim>\<open>/\\([\\`*_{}[\]()#+\-.!])/g\<close>: backslash, backtick and
  thirteen punctuation characters.
\<close>

definition md_special :: "char \<Rightarrow> bool" where
  "md_special c \<longleftrightarrow>
     c \<in> set [CHR 0x5C, CHR 0x60, CHR ''*'', CHR ''_'', CHR ''{'', CHR ''}'', CHR ''['', CHR '']'',
              CHR ''('', CHR '')'', CHR ''#'', CHR ''+'', CHR ''-'', CHR ''.'', CHR ''!'']"

text \<open>
  \<^verbatim>\<open>text.replace(/\\([...])/g, '$1')\<close>: the scan goes left to right; where a backslash is
  followed by a character of the class, the pair is replaced by that character and the scan
  resumes behind the pair; any other character is copied.
\<close>

fun replace_escapes :: "string \<Rightarrow> string" where
  "replace_escapes (b # c # cs) =
     (if b = CHR 0x5C \<and> md_special c then c # replace_escapes cs
      else b # replace_escapes (c # cs))"
| "replace_escapes cs = cs"

text \<open>
  \<^verbatim>\<open>if (!text || typeof text !== 'string') return text;\<close> hands back an absent or empty
  text as it is; the type of the argument leaves no other non-string value.
\<close>

definition unescapeMarkdown :: "string option \<Rightarrow> string option" where
  "unescapeMarkdown text =
     (case text of
        None \<Rightarrow> None
      | Some t \<Rightarrow> if t = [] then Some t else Some (replace_escapes t))"

text \<open>Two predicates on texts, used to state when unescaping twice changes nothing.\<close>

fun has_escape :: "string \<Rightarrow> bool" where
  "has_escape (b # c # cs) = ((b = CHR 0x5C \<and> md_special c) \<or> has_escape (c # cs))"
| "has_escape cs = False"

fun adjacent_backslashes :: "string \<Rightarrow> bool" where
  "adjacent_backslashes (b # c # cs) =
     ((b = CHR 0x5C \<and> c = CHR 0x5C) \<or> adjacent_backslashes (c # cs))"
| "adjacent_backslashes cs = False"

section \<open>The case-ID pattern and caseIds\<close>

text \<open>
  \<^verbatim>\<open>\d\<close> is the range \<^verbatim>\<open>0\<close> to \<^verbatim>\<open>9\<close>. Under the \<^verbatim>\<open>i\<close> flag (and no \<^verbatim>\<open>u\<close> flag) two
  characters match when their upper-case forms agree, where a character outside ASCII is
  never mapped to an ASCII one: on bytes, only \<^verbatim>\<open>a\<close> to \<^verbatim>\<open>z\<close> change.
\<close>

definition is_digit :: "char \<Rightarrow> bool" where
  "is_digit c \<longleftrightarrow> 48 \<le> (of_char c :: nat) \<and> (of_char c :: nat) \<le> 57"

definition toUpperCase :: "char \<Rightarrow> char" where
  "toUpperCase c =
     (if 97 \<le> (of_char c :: nat) \<and> (of_char c :: nat) \<le> 122
      then char_of ((of_char c :: nat) - 32) else c)"

definition canonicalize :: "bool \<Rightarrow> char \<Rightarrow> char" where
  "canonicalize ignoreCase c = (if ignoreCase then toUpperCase c else c)"

text \<open>A literal pattern matches at the start of \<open>s\<close>.\<close>

definition literal_at :: "bool \<Rightarrow> string \<Rightarrow> string \<Rightarrow> bool" where
  "literal_at ignoreCase lit s \<longleftrightarrow>
     length lit \<le> length s \<and>
     map (canonicalize ignoreCase) (take (length lit) s) = map (canonicalize ignoreCase) lit"

text \<open>
  \<^verbatim>\<open>/Qase:(\d+)/\<close> tried at the start of \<open>s\<close>: the literal, then the longest run of
  digits, which must not be empty; the value is the capture group.
\<close>

definition match_at :: "bool \<Rightarrow> string \<Rightarrow> string option" where
  "match_at ignoreCase s =
     (if literal_at ignoreCase ''Qase:'' s \<and> takeWhile is_digit (drop 5 s) \<noteq> []
      then Some (takeWhile is_digit (drop 5 s)) else None)"

text \<open>
  \<^verbatim>\<open>name.match(/Qase:(\d+)/)\<close>, with the flag \<^verbatim>\<open>i\<close> when \<open>ignoreCase\<close> holds: the leftmost
  position where the pattern matches decides; \<open>None\<close> is \<^verbatim>\<open>null\<close>, \<open>Some d\<close> carries
  \<^verbatim>\<open>match[1]\<close>.
\<close>

fun match_Qase :: "bool \<Rightarrow> string \<Rightarrow> string option" where
  "match_Qase ignoreCase [] = None"
| "match_Qase ignoreCase (c # cs) =
     (case match_at ignoreCase (c # cs) of
        Some d \<Rightarrow> Some d
      | None \<Rightarrow> match_Qase ignoreCase cs)"

text \<open>
  \<^verbatim>\<open>parseInt\<close> on a captured run of digits: its decimal value (a JavaScript number holds
  it exactly up to \<open>2 ^ 53\<close>).
\<close>

definition digit_value :: "char \<Rightarrow> nat" where
  "digit_value c = of_char c - 48"

definition parseInt :: "string \<Rightarrow> nat" where
  "parseInt ds = foldl (\<lambda>n c. 10 * n + digit_value c) 0 ds"

text \<open>The callback of \<^verbatim>\<open>executions.map\<close>: \<^verbatim>\<open>match ? parseInt(match[1]) : null\<close>.\<close>

definition caseId_of_name :: "bool \<Rightarrow> string \<Rightarrow> nat option" where
  "caseId_of_name ignoreCase nm = map_option parseInt (match_Qase ignoreCase nm)"

text \<open>\<^verbatim>\<open>Boolean\<close> on a number or \<^verbatim>\<open>null\<close>: \<^verbatim>\<open>null\<close> and \<^verbatim>\<open>0\<close> are falsy.\<close>

definition Boolean :: "nat option \<Rightarrow> bool" where
  "Boolean v = (case v of None \<Rightarrow> False | Some n \<Rightarrow> n \<noteq> 0)"

text \<open>
  \<^verbatim>\<open>[...new Set(xs)]\<close>: a set keeps its elements in insertion order, and adding an element
  that it holds changes nothing.
\<close>

definition Set_add :: "'a list \<Rightarrow> 'a \<Rightarrow> 'a list" where
  "Set_add s x = (if x \<in> set s then s else s @ [x])"

definition new_Set :: "'a list \<Rightarrow> 'a list" where
  "new_Set xs = foldl Set_add [] xs"

definition caseIds_with :: "bool \<Rightarrow> execution list \<Rightarrow> nat option list" where
  "caseIds_with ignoreCase executions =
     new_Set (filter Boolean
       (map (\<lambda>exec. caseId_of_name ignoreCase (execution.name exec)) executions))"

text \<open>
  The named file and \<^verbatim>\<open>part_001\<close> write the pattern without a flag, \<^verbatim>\<open>part_000\<close> with
  \<^verbatim>\<open>i\<close>. The entries of the list are numbers: the filter has removed every \<^verbatim>\<open>null\<close>.
\<close>

definition caseIds :: "execution list \<Rightarrow> nat option list" where
  "caseIds = caseIds_with False"

definition caseIds_part_000 :: "execution list \<Rightarrow> nat option list" where
  "caseIds_part_000 = caseIds_with True"

definition caseIds_part_001 :: "execution list \<Rightarrow> nat option list" where
  "caseIds_part_001 = caseIds_with False"

section \<open>getCaseSteps\<close>

text \<open>
  \<^verbatim>\<open>return response.data.result.steps || [];\<close> An array is truthy, also the empty one;
  an absent field gives the empty array. A failed request throws.
\<close>

definition getCaseSteps :: "axios_get \<Rightarrow> nat \<Rightarrow> error + caseStep list" where
  "getCaseSteps axios_get caseId =
     (case axios_get caseId of
        Inl e \<Rightarrow> Inl e
      | Inr None \<Rightarrow> Inr []
      | Inr (Some qaseSteps) \<Rightarrow> Inr qaseSteps)"

section \<open>The step verdicts\<close>

text \<open>
  \<^verbatim>\<open>exec.assertions.find(a => a.name === unescapeMarkdown(step.expected_result))\<close>; in
  \<^verbatim>\<open>part_001\<close> the comparison is with \<^verbatim>\<open>step.expected_result\<close> itself. A name is a
  string, so it never equals an absent expected result.
\<close>

definition find_assertion :: "assertion list \<Rightarrow> caseStep \<Rightarrow> assertion option" where
  "find_assertion asserts step =
     find (\<lambda>a. Some (assertion.name a) = unescapeMarkdown (caseStep.expected_result step))
       asserts"

definition find_assertion_part_001 :: "assertion list \<Rightarrow> caseStep \<Rightarrow> assertion option" where
  "find_assertion_part_001 asserts step =
     find (\<lambda>a. Some (assertion.name a) = caseStep.expected_result step) asserts"

text \<open>\<^verbatim>\<open>assertion ? (assertion.error ? "failed" : "passed") : "failed"\<close>\<close>

definition step_status :: "assertion option \<Rightarrow> string" where
  "step_status found =
     (case found of
        Some a \<Rightarrow> (if assertion.error a \<noteq> None then ''failed'' else ''passed'')
      | None \<Rightarrow> ''failed'')"

text \<open>\<^verbatim>\<open>step.position || index + 1\<close>: an absent position and the number 0 are falsy.\<close>

definition position_or_index :: "caseStep \<Rightarrow> nat \<Rightarrow> nat" where
  "position_or_index step index =
     (case caseStep.position step of
        Some p \<Rightarrow> if p \<noteq> 0 then p else index + 1
      | None \<Rightarrow> index + 1)"

text \<open>\<^verbatim>\<open>step.expected_result || "Expected result"\<close>: the empty string is falsy too.\<close>

definition expected_result_or_default :: "caseStep \<Rightarrow> string" where
  "expected_result_or_default step =
     (case caseStep.expected_result step of
        Some r \<Rightarrow> if r \<noteq> [] then r else ''Expected result''
      | None \<Rightarrow> ''Expected result'')"

text \<open>
  \<^verbatim>\<open>qaseSteps.map((step, index) => ...)\<close> in the three files; the index starts at 0.
\<close>

definition stepsQase :: "execution \<Rightarrow> caseStep list \<Rightarrow> stepQase list" where
  "stepsQase exec qaseSteps =
     map (\<lambda>(index, step).
            \<lparr>stepQase.position = position_or_index step index,
             stepQase.action = caseStep.action step,
             stepQase.expected_result = expected_result_or_default step,
             stepQase.status = step_status (find_assertion (assertions exec) step)\<rparr>)
       (enumerate 0 qaseSteps)"

definition stepsQase_part_000 :: "execution \<Rightarrow> caseStep list \<Rightarrow> stepQase_part_000 list" where
  "stepsQase_part_000 exec qaseSteps =
     map (\<lambda>(index, step).
            \<lparr>stepQase_part_000.position = position_or_index step index,
             stepQase_part_000.data =
               \<lparr>step_data.action = caseStep.action step,
                step_data.expected_result = expected_result_or_default step\<rparr>,
             stepQase_part_000.execution =
               \<lparr>step_execution.status = step_status (find_assertion (assertions exec) step)\<rparr>\<rparr>)
       (enumerate 0 qaseSteps)"

definition stepsQase_part_001 :: "execution \<Rightarrow> caseStep list \<Rightarrow> stepQase list" where
  "stepsQase_part_001 exec qaseSteps =
     map (\<lambda>(index, step).
            \<lparr>stepQase.position = position_or_index step index,
             stepQase.action = caseStep.action step,
             stepQase.expected_result = expected_result_or_default step,
             stepQase.status = step_status (find_assertion_part_001 (assertions exec) step)\<rparr>)
       (enumerate 0 qaseSteps)"

section \<open>Overall status and comment\<close>

text \<open>
  \<^verbatim>\<open>stepsQase.every(a => a.status !== "failed")\<close>, then
  \<^verbatim>\<open>failedChecker ? "passed" : "failed"\<close>; \<^verbatim>\<open>part_000\<close> reads \<^verbatim>\<open>a.execution.status\<close>.
\<close>

definition passed :: "stepQase list \<Rightarrow> string" where
  "passed verdicts =
     (if list_all (\<lambda>a. stepQase.status a \<noteq> ''failed'') verdicts then ''passed'' else ''failed'')"

definition passed_part_000 :: "stepQase_part_000 list \<Rightarrow> string" where
  "passed_part_000 verdicts =
     (if list_all (\<lambda>a. step_execution.status (stepQase_part_000.execution a) \<noteq> ''failed'') verdicts
      then ''passed'' else ''failed'')"

text \<open>
  \<^verbatim>\<open>part_001\<close> does not look at the step verdicts for the overall status:
  \<^verbatim>\<open>const passed = exec.assertions.every(a => !a.error);\<close> and, in the payload,
  \<^verbatim>\<open>status: passed ? "passed" : "failed"\<close>.
\<close>

definition passed_part_001 :: "execution \<Rightarrow> string" where
  "passed_part_001 exec =
     (if list_all (\<lambda>a. assertion.error a = None) (assertions exec)
      then ''passed'' else ''failed'')"

text \<open>\<^verbatim>\<open>Array.prototype.join\<close> on strings.\<close>

fun join :: "string \<Rightarrow> string list \<Rightarrow> string" where
  "join sep [] = []"
| "join sep [x] = x"
| "join sep (x # y # ys) = x @ sep @ join sep (y # ys)"

text \<open>The check mark U+2705 and the cross mark U+274C, in UTF-8.\<close>

definition check_mark :: string where
  "check_mark = [CHR 0xE2, CHR 0x9C, CHR 0x85]"

definition cross_mark :: string where
  "cross_mark = [CHR 0xE2, CHR 0x9D, CHR 0x8C]"

text \<open>
  The callback of \<^verbatim>\<open>exec.assertions.map\<close>: the cross, the name, a colon and the error's
  message when the assertion has an error, else the check mark and the name.
\<close>

definition comment_line :: "assertion \<Rightarrow> string" where
  "comment_line a =
     (case assertion.error a of
        Some e \<Rightarrow> cross_mark @ '' '' @ assertion.name a @ '': '' @ message e
      | None \<Rightarrow> check_mark @ '' '' @ assertion.name a)"

definition render_comment :: "execution \<Rightarrow> string" where
  "render_comment exec = join [CHR 0x0A] (map comment_line (assertions exec))"

text \<open>
  The lines of a text, the pieces between line feeds (\<^verbatim>\<open>text.split("\n")\<close>); it is used
  to state what the lines of a comment are.
\<close>

fun split_lines :: "string \<Rightarrow> string list" where
  "split_lines [] = [[]]"
| "split_lines (c # cs) =
     (if c = CHR 0x0A then [] # split_lines cs
      else (case split_lines cs of
              l # ls \<Rightarrow> (c # l) # ls
            | [] \<Rightarrow> [[c]]))"

section \<open>submitResults\<close>

text \<open>
  The payload that the named file posts for one execution:
  \<^verbatim>\<open>{case_id: caseId, status: passed, comment: comment, steps: stepsQase}\<close>.
\<close>

definition result_of :: "execution \<Rightarrow> nat \<Rightarrow> caseStep list \<Rightarrow> result" where
  "result_of exec caseId qaseSteps =
     \<lparr>result.case_id = caseId,
      result.status = passed (stepsQase exec qaseSteps),
      result.comment = render_comment exec,
      result.steps = stepsQase exec qaseSteps\<rparr>"


text \<open>
  \<^verbatim>\<open>part_000\<close> pushes one record per matching execution onto \<^verbatim>\<open>tc_results\<close> and posts
  the whole list once, behind the loop.
\<close>

definition tc_result_of :: "execution \<Rightarrow> nat \<Rightarrow> caseStep list \<Rightarrow> tc_result" where
  "tc_result_of exec caseId qaseSteps =
     \<lparr>tc_result.title = execution.name exec,
      tc_result.testops_id = caseId,
      tc_result.execution =
        \<lparr>step_execution.status = passed_part_000 (stepsQase_part_000 exec qaseSteps)\<rparr>,
      tc_result.fields' = \<lparr>result_fields.description = render_comment exec\<rparr>,
      tc_result.steps = stepsQase_part_000 exec qaseSteps\<rparr>"



text \<open>
  \<^verbatim>\<open>part_001\<close> posts \<^verbatim>\<open>{case_id: caseId, status: passed ? "passed" : "failed",
  comment: comment, steps: stepsQase}\<close>: the steps are the verdicts of the case steps, the
  status is the one computed from the assertions. The script also builds a list \<^verbatim>\<open>steps\<close>
  from the assertions, which it never reads; it is left out here.
\<close>

definition result_of_part_001 :: "execution \<Rightarrow> nat \<Rightarrow> caseStep list \<Rightarrow> result" where
  "result_of_part_001 exec caseId qaseSteps =
     \<lparr>result.case_id = caseId,
      result.status = passed_part_001 exec,
      result.comment = render_comment exec,
      result.steps = stepsQase_part_001 exec qaseSteps\<rparr>"


section \<open>Properties of unescapeMarkdown\<close>

lemma md_special_backslash: "md_special (CHR 0x5C)"
  by (simp add: md_special_def)

lemma replace_escapes_plain_head:
  "c \<noteq> CHR 0x5C \<Longrightarrow> replace_escapes (c # cs) = c # replace_escapes cs"
  by (cases cs) simp_all

lemma replace_escapes_no_escape: "\<not> has_escape t \<Longrightarrow> replace_escapes t = t"
  by (induction t rule: replace_escapes.induct) auto

lemma has_escape_plain_head:
  "c \<noteq> CHR 0x5C \<Longrightarrow> has_escape (c # cs) = has_escape cs"
  by (cases cs) simp_all

lemma replace_escapes_clean:
  "\<not> adjacent_backslashes s \<Longrightarrow> \<not> has_escape (replace_escapes s)"
proof (induction s rule: replace_escapes.induct)
  case (1 b c cs)
  show ?case
  proof (cases "b = CHR 0x5C \<and> md_special c")
    case True
    with "1.prems" have c: "c \<noteq> CHR 0x5C" by auto
    from "1.prems" have "\<not> adjacent_backslashes cs"
      by (cases cs) (auto simp: c)
    with "1.IH"(1) True have "\<not> has_escape (replace_escapes cs)" by simp
    with True c show ?thesis by (simp add: has_escape_plain_head)
  next
    case False
    from "1.prems" have "\<not> adjacent_backslashes (c # cs)" by simp
    with "1.IH"(2) False have ih: "\<not> has_escape (replace_escapes (c # cs))" by simp
    show ?thesis
    proof (cases "b = CHR 0x5C")
      case True
      with False have nc: "\<not> md_special c" by simp
      then have "c \<noteq> CHR 0x5C" using md_special_backslash by auto
      then have "replace_escapes (c # cs) = c # replace_escapes cs"
        by (rule replace_escapes_plain_head)
      with ih nc False show ?thesis by simp
    next
      case False
      with ih show ?thesis
        using \<open>\<not> (b = CHR 0x5C \<and> md_special c)\<close> by (simp add: has_escape_plain_head)
    qed
  qed
qed simp_all

lemma unescapeMarkdown_Some: "unescapeMarkdown (Some t) = Some (replace_escapes t)"
  by (simp add: unescapeMarkdown_def)

lemma length_replace_escapes: "length (replace_escapes t) \<le> length t"
  by (induction t rule: replace_escapes.induct) auto

lemma replace_escapes_shorter: "has_escape t \<Longrightarrow> length (replace_escapes t) < length t"
proof (induction t rule: replace_escapes.induct)
  case (1 b c cs)
  show ?case
  proof (cases "b = CHR 0x5C \<and> md_special c")
    case True
    then show ?thesis
      using length_replace_escapes [of cs] by simp
  next
    case False
    with "1.prems" have "has_escape (c # cs)" by simp
    with "1.IH"(2) False have "length (replace_escapes (c # cs)) < length (c # cs)" by simp
    moreover have "replace_escapes (b # c # cs) = b # replace_escapes (c # cs)"
      unfolding replace_escapes.simps(1) by (rule if_not_P [OF False])
    ultimately show ?thesis by simp
  qed
qed simp_all

lemma replace_escapes_fixed_iff: "replace_escapes t = t \<longleftrightarrow> \<not> has_escape t"
  using replace_escapes_shorter [of t] replace_escapes_no_escape [of t] by auto

text \<open>
  C4, as stated: for every string \<open>s\<close>, unescaping twice gives what unescaping once gives.
  It fails where the text holds an escaped backslash in front of an escapable character:
  \<^verbatim>\<open>\\*\<close> becomes \<^verbatim>\<open>\*\<close>, which a second pass turns into \<^verbatim>\<open>*\<close>.
\<close>

theorem unescapeMarkdown_not_idempotent:
  "unescapeMarkdown (unescapeMarkdown (Some [CHR 0x5C, CHR 0x5C, CHR ''*'']))
     \<noteq> unescapeMarkdown (Some [CHR 0x5C, CHR 0x5C, CHR ''*''])"
  by (simp add: unescapeMarkdown_def md_special_def)

text \<open>
  C4, amended: unescaping the unescaped text gives the unescaped text exactly when the
  unescaped text holds no backslash in front of an escapable character. That is so for
  every string with no two adjacent backslashes; and a text that holds no backslash in front
  of an escapable character is left as it is.
\<close>

theorem unescapeMarkdown_idempotent:
  "(unescapeMarkdown (unescapeMarkdown (Some s)) = unescapeMarkdown (Some s)
      \<longleftrightarrow> \<not> has_escape (replace_escapes s))
   \<and> (\<not> adjacent_backslashes s \<longrightarrow>
        unescapeMarkdown (unescapeMarkdown (Some s)) = unescapeMarkdown (Some s))
   \<and> (\<not> has_escape s \<longrightarrow> unescapeMarkdown (Some s) = Some s)"
  by (simp add: unescapeMarkdown_Some replace_escapes_fixed_iff replace_escapes_clean)

theorem unescapeMarkdown_idempotent_witness:
  "unescapeMarkdown (Some [CHR ''2'', CHR ''0'', CHR ''0'', CHR 0x5C, CHR ''.'']) = Some ''200.''
   \<and> unescapeMarkdown (unescapeMarkdown (Some [CHR ''2'', CHR ''0'', CHR ''0'', CHR 0x5C, CHR ''.'']))
       = Some ''200.''
   \<and> unescapeMarkdown (Some ''200.'') = Some ''200.''"
proof -
  let ?s = "[CHR ''2'', CHR ''0'', CHR ''0'', CHR 0x5C, CHR ''.'']"
  have u: "unescapeMarkdown (Some ?s) = Some ''200.''"
    by (simp add: unescapeMarkdown_def md_special_def)
  have h: "\<not> adjacent_backslashes ?s" by simp
  have k: "\<not> has_escape ''200.''" by simp
  from unescapeMarkdown_idempotent [of ?s] h
  have "unescapeMarkdown (unescapeMarkdown (Some ?s)) = unescapeMarkdown (Some ?s)"
    by blast
  moreover from unescapeMarkdown_idempotent [of "''200.''"] k
  have "unescapeMarkdown (Some ''200.'') = Some ''200.''"
    by blast
  ultimately show ?thesis using u by simp
qed

section \<open>Properties of the case-ID pattern\<close>

lemma toUpperCase_digit: "is_digit c \<Longrightarrow> toUpperCase c = c"
  by (simp add: is_digit_def toUpperCase_def)

lemma toUpperCase_eq_digit:
  assumes eq: "toUpperCase x = toUpperCase y" and d: "is_digit x"
  shows "y = x"
proof (cases "97 \<le> (of_char y :: nat) \<and> (of_char y :: nat) \<le> 122")
  case True
  then have "toUpperCase y = char_of ((of_char y :: nat) - 32)"
    by (simp add: toUpperCase_def)
  with eq d have "x = char_of ((of_char y :: nat) - 32)"
    by (simp add: toUpperCase_digit)
  then have "(of_char x :: nat) = ((of_char y :: nat) - 32) mod 256"
    by simp
  moreover from True have "(of_char y :: nat) - 32 < 256"
    by arith
  then have "((of_char y :: nat) - 32) mod 256 = of_char y - 32"
    by simp
  ultimately have "(of_char x :: nat) = of_char y - 32" by simp
  with True d have False unfolding is_digit_def by arith
  then show ?thesis ..
next
  case False
  then have "toUpperCase y = y" unfolding toUpperCase_def by (rule if_not_P)
  moreover from d have "toUpperCase x = x" by (rule toUpperCase_digit)
  ultimately show ?thesis using eq by simp
qed

lemma recase_digit:
  assumes f: "\<forall>c. toUpperCase (f c) = toUpperCase c"
  shows "is_digit (f c) = is_digit c" and "is_digit c \<Longrightarrow> f c = c"
proof -
  have a: "is_digit c \<Longrightarrow> f c = c" for c
    using toUpperCase_eq_digit [of c "f c"] f by simp
  have b: "is_digit (f c) \<Longrightarrow> c = f c" for c
    using toUpperCase_eq_digit [of "f c" c] f by simp
  show "is_digit (f c) = is_digit c" using a b by metis
  show "is_digit c \<Longrightarrow> f c = c" by (rule a)
qed

lemma canonicalize_True: "canonicalize True = toUpperCase"
  by (rule ext) (simp add: canonicalize_def)

lemma literal_at_recase:
  assumes f: "\<forall>c. toUpperCase (f c) = toUpperCase c"
  shows "literal_at True lit (map f s) = literal_at True lit s"
  using f by (simp add: literal_at_def canonicalize_True take_map comp_def)

lemma digits_recase:
  assumes f: "\<forall>c. toUpperCase (f c) = toUpperCase c"
  shows "takeWhile is_digit (map f s) = takeWhile is_digit s"
proof (induction s)
  case Nil
  show ?case by simp
next
  case (Cons c s)
  then show ?case using recase_digit [OF f, of c] by auto
qed

lemma match_at_recase:
  assumes f: "\<forall>c. toUpperCase (f c) = toUpperCase c"
  shows "match_at True (map f s) = match_at True s"
  unfolding match_at_def
  by (simp only: literal_at_recase [OF f] drop_map digits_recase [OF f])

lemma match_Qase_recase:
  assumes f: "\<forall>c. toUpperCase (f c) = toUpperCase c"
  shows "match_Qase True (map f s) = match_Qase True s"
proof (induction s)
  case Nil
  show ?case by simp
next
  case (Cons c s)
  have "match_at True (f c # map f s) = match_at True (c # s)"
    using match_at_recase [OF f, of "c # s"] by simp
  with Cons show ?case by (simp split: option.splits)
qed

lemma caseId_of_name_recase:
  "\<forall>c. toUpperCase (f c) = toUpperCase c \<Longrightarrow>
     caseId_of_name True (map f nm) = caseId_of_name True nm"
  by (simp add: caseId_of_name_def match_Qase_recase)

lemma toUpperCase_Q: "toUpperCase (CHR ''Q'') = CHR ''Q''"
  by code_simp

lemma toUpperCase_q: "toUpperCase (CHR ''q'') = CHR ''Q''"
  by code_simp

lemma caseIds_part_000_recase:
  assumes f: "\<forall>c. toUpperCase (f c) = toUpperCase c"
  shows "caseIds_part_000
           (map (\<lambda>e. e\<lparr>execution.name := map f (execution.name e)\<rparr>) executions)
         = caseIds_part_000 executions"
  by (simp add: caseIds_part_000_def caseIds_with_def comp_def caseId_of_name_recase [OF f])

lemma match_at_no_Q: "c \<noteq> CHR ''Q'' \<Longrightarrow> match_at False (c # cs) = None"
  by (auto simp: match_at_def literal_at_def canonicalize_def)

lemma match_Qase_no_Q: "CHR ''Q'' \<notin> set nm \<Longrightarrow> match_Qase False nm = None"
  by (induction nm) (auto simp: match_at_no_Q)

lemma caseIds_with_no_Q:
  "\<forall>e \<in> set executions. CHR ''Q'' \<notin> set (execution.name e) \<Longrightarrow>
     caseIds_with False executions = []"
proof -
  assume "\<forall>e \<in> set executions. CHR ''Q'' \<notin> set (execution.name e)"
  then have "filter Boolean
       (map (\<lambda>exec. caseId_of_name False (execution.name exec)) executions) = []"
    by (induction executions) (simp_all add: caseId_of_name_def match_Qase_no_Q Boolean_def)
  then show ?thesis by (simp add: caseIds_with_def new_Set_def)
qed

text \<open>
  C1, as stated: every variant applies the pattern without regard to letter case. The named
  file writes \<^verbatim>\<open>/Qase:(\d+)/\<close> with no flag, and a name that holds only \<^verbatim>\<open>qase:12\<close>
  yields no CaseId there.
\<close>

theorem caseIds_lower_case_unmatched:
  "Some 12 \<notin> set (caseIds [\<lparr>execution.name = ''qase:12'', assertions = []\<rparr>])"
  by code_simp

text \<open>
  C1, amended: in \<^verbatim>\<open>part_000\<close> the pattern is applied case-insensitively (changing the case
  of letters in the names changes no extracted CaseId; \<^verbatim>\<open>Qase:12\<close> and \<^verbatim>\<open>qase:12\<close> both yield
  12). In the named file and in \<^verbatim>\<open>part_001\<close> the pattern is case-sensitive: \<^verbatim>\<open>Qase:12\<close>
  yields 12, and a name without an upper-case \<^verbatim>\<open>Q\<close>, such as \<^verbatim>\<open>qase:12\<close>, yields no CaseId.
\<close>

theorem caseIds_letter_case:
  "((\<forall>c. toUpperCase (f c) = toUpperCase c) \<longrightarrow>
      caseIds_part_000
        (map (\<lambda>e. e\<lparr>execution.name := map f (execution.name e)\<rparr>) executions)
      = caseIds_part_000 executions)
   \<and> caseIds_part_000 [\<lparr>execution.name = ''Qase:12'', assertions = []\<rparr>] = [Some 12]
   \<and> caseIds_part_000 [\<lparr>execution.name = ''qase:12'', assertions = []\<rparr>] = [Some 12]
   \<and> caseIds [\<lparr>execution.name = ''Qase:12'', assertions = []\<rparr>] = [Some 12]
   \<and> caseIds [\<lparr>execution.name = ''qase:12'', assertions = []\<rparr>] = []
   \<and> caseIds_part_001 [\<lparr>execution.name = ''Qase:12'', assertions = []\<rparr>] = [Some 12]
   \<and> caseIds_part_001 [\<lparr>execution.name = ''qase:12'', assertions = []\<rparr>] = []
   \<and> ((\<forall>e \<in> set executions. CHR ''Q'' \<notin> set (execution.name e)) \<longrightarrow>
        caseIds executions = [] \<and> caseIds_part_001 executions = [])"
proof -
  have "caseIds_part_000 [\<lparr>execution.name = ''Qase:12'', assertions = []\<rparr>] = [Some 12]"
    by code_simp
  moreover
  have "caseIds_part_000 [\<lparr>execution.name = ''qase:12'', assertions = []\<rparr>] = [Some 12]"
    by code_simp
  moreover
  have "caseIds [\<lparr>execution.name = ''Qase:12'', assertions = []\<rparr>] = [Some 12]"
    by code_simp
  moreover
  have "caseIds [\<lparr>execution.name = ''qase:12'', assertions = []\<rparr>] = []"
    by code_simp
  moreover
  have "caseIds_part_001 [\<lparr>execution.name = ''Qase:12'', assertions = []\<rparr>] = [Some 12]"
    by code_simp
  moreover
  have "caseIds_part_001 [\<lparr>execution.name = ''qase:12'', assertions = []\<rparr>] = []"
    by code_simp
  moreover
  have "caseIds executions = [] \<and> caseIds_part_001 executions = []"
    if "\<forall>e \<in> set executions. CHR ''Q'' \<notin> set (execution.name e)"
    using that by (simp add: caseIds_def caseIds_part_001_def caseIds_with_no_Q)
  ultimately show ?thesis
    using caseIds_part_000_recase [of f executions] by blast
qed

theorem caseIds_letter_case_witness:
  "(\<forall>c. toUpperCase (if c = CHR ''Q'' then CHR ''q'' else c) = toUpperCase c)
   \<and> caseIds_part_000 [\<lparr>execution.name = ''Login qase:12'', assertions = []\<rparr>]
       = caseIds_part_000 [\<lparr>execution.name = ''Login Qase:12'', assertions = []\<rparr>]
   \<and> caseIds [\<lparr>execution.name = ''Login qase:12'', assertions = []\<rparr>] = []"
proof -
  have h: "\<forall>c. toUpperCase (if c = CHR ''Q'' then CHR ''q'' else c) = toUpperCase c"
    by (simp add: toUpperCase_Q toUpperCase_q)
  with caseIds_letter_case
         [of "\<lambda>c. if c = CHR ''Q'' then CHR ''q'' else c"
             "[\<lparr>execution.name = ''Login Qase:12'', assertions = []\<rparr>]"]
  have one: "caseIds_part_000 [\<lparr>execution.name = ''Login qase:12'', assertions = []\<rparr>]
       = caseIds_part_000 [\<lparr>execution.name = ''Login Qase:12'', assertions = []\<rparr>]"
    by simp
  have k: "\<forall>e \<in> set [\<lparr>execution.name = ''Login qase:12'', assertions = []\<rparr>].
             CHR ''Q'' \<notin> set (execution.name e)"
    by simp
  with caseIds_letter_case
         [of id "[\<lparr>execution.name = ''Login qase:12'', assertions = []\<rparr>]"]
  have two: "caseIds [\<lparr>execution.name = ''Login qase:12'', assertions = []\<rparr>] = []"
    by blast
  from h one two show ?thesis by blast
qed

section \<open>Properties of caseIds\<close>

lemma set_foldl_Set_add: "set (foldl Set_add acc xs) = set acc \<union> set xs"
  by (induction xs arbitrary: acc) (auto simp: Set_add_def)

lemma distinct_foldl_Set_add: "distinct acc \<Longrightarrow> distinct (foldl Set_add acc xs)"
  by (induction xs arbitrary: acc) (auto simp: Set_add_def)

lemma distinct_new_Set: "distinct (new_Set xs)"
  by (simp add: new_Set_def distinct_foldl_Set_add)

lemma set_new_Set: "set (new_Set xs) = set xs"
  by (simp add: new_Set_def set_foldl_Set_add)

lemma count_list_distinct: "distinct xs \<Longrightarrow> x \<in> set xs \<Longrightarrow> count_list xs x = 1"
  by (induction xs) (auto simp: count_list_0_iff)

lemma distinct_caseIds_with: "distinct (caseIds_with ic executions)"
  by (simp add: caseIds_with_def distinct_new_Set)

lemma set_caseIds_with:
  "set (caseIds_with ic executions) =
     {v. Boolean v \<and> (\<exists>e \<in> set executions. v = caseId_of_name ic (execution.name e))}"
  by (auto simp: caseIds_with_def set_new_Set)


lemma count_caseIds_with:
  "e \<in> set executions \<Longrightarrow> caseId_of_name ic (execution.name e) = Some n \<Longrightarrow> n \<noteq> 0 \<Longrightarrow>
    count_list (caseIds_with ic executions) (Some n) = 1"
  by (rule count_list_distinct [OF distinct_caseIds_with])
     (force simp: set_caseIds_with Boolean_def)

text \<open>
  C6: the list handed to run creation has no duplicates; executions whose names carry the
  same CaseId (a positive integer) account for exactly one entry.
\<close>

theorem caseIds_deduplicated:
  "distinct (caseIds executions)
   \<and> distinct (caseIds_part_000 executions)
   \<and> distinct (caseIds_part_001 executions)
   \<and> (e1 \<in> set executions \<and> e2 \<in> set executions \<and> n \<noteq> 0 \<and>
        caseId_of_name False (execution.name e1) = Some n \<and>
        caseId_of_name False (execution.name e2) = Some n \<longrightarrow>
          count_list (caseIds executions) (Some n) = 1 \<and>
          count_list (caseIds_part_001 executions) (Some n) = 1)
   \<and> (e1 \<in> set executions \<and> e2 \<in> set executions \<and> n \<noteq> 0 \<and>
        caseId_of_name True (execution.name e1) = Some n \<and>
        caseId_of_name True (execution.name e2) = Some n \<longrightarrow>
          count_list (caseIds_part_000 executions) (Some n) = 1)"
  unfolding caseIds_def caseIds_part_000_def caseIds_part_001_def
  by (auto simp: distinct_caseIds_with count_caseIds_with)

theorem caseIds_deduplicated_witness:
  "caseIds [\<lparr>execution.name = ''Login Qase:501'', assertions = []\<rparr>,
            \<lparr>execution.name = ''Logout Qase:501'', assertions = []\<rparr>] = [Some 501]
   \<and> count_list (caseIds [\<lparr>execution.name = ''Login Qase:501'', assertions = []\<rparr>,
            \<lparr>execution.name = ''Logout Qase:501'', assertions = []\<rparr>]) (Some 501) = 1
   \<and> distinct (caseIds [\<lparr>execution.name = ''Login Qase:501'', assertions = []\<rparr>,
            \<lparr>execution.name = ''Logout Qase:501'', assertions = []\<rparr>])
   \<and> count_list (caseIds_part_000 [\<lparr>execution.name = ''Login Qase:501'', assertions = []\<rparr>,
            \<lparr>execution.name = ''Logout Qase:501'', assertions = []\<rparr>]) (Some 501) = 1"
proof -
  let ?e1 = "\<lparr>execution.name = ''Login Qase:501'', assertions = []\<rparr>"
  let ?e2 = "\<lparr>execution.name = ''Logout Qase:501'', assertions = []\<rparr>"
  have a: "caseId_of_name False (execution.name ?e1) = Some 501" by code_simp
  have b: "caseId_of_name False (execution.name ?e2) = Some 501" by code_simp
  have a': "caseId_of_name True (execution.name ?e1) = Some 501" by code_simp
  have b': "caseId_of_name True (execution.name ?e2) = Some 501" by code_simp
  have c: "caseIds [?e1, ?e2] = [Some 501]" by code_simp
  have m: "?e1 \<in> set [?e1, ?e2]" "?e2 \<in> set [?e1, ?e2]" "(501::nat) \<noteq> 0" by simp_all
  from caseIds_deduplicated [of "[?e1, ?e2]" ?e1 ?e2 501] a b m
  have "count_list (caseIds [?e1, ?e2]) (Some 501) = 1 \<and> distinct (caseIds [?e1, ?e2])"
    by blast
  moreover from caseIds_deduplicated [of "[?e1, ?e2]" ?e1 ?e2 501] a' b' m
  have "count_list (caseIds_part_000 [?e1, ?e2]) (Some 501) = 1"
    by blast
  ultimately show ?thesis using c by blast
qed

section \<open>Properties of the step verdicts and the overall status\<close>

lemma passed_neq_failed: "''passed'' \<noteq> ''failed''"
  by simp

lemma step_status_cases: "step_status found = ''passed'' \<or> step_status found = ''failed''"
  by (simp add: step_status_def split: option.split)

lemma step_status_not_failed: "step_status found \<noteq> ''failed'' \<longleftrightarrow> step_status found = ''passed''"
  using step_status_cases [of found] by auto

lemma length_stepsQase: "length (stepsQase exec qaseSteps) = length qaseSteps"
  by (simp add: stepsQase_def)

lemma length_stepsQase_part_000: "length (stepsQase_part_000 exec qaseSteps) = length qaseSteps"
  by (simp add: stepsQase_part_000_def)

lemma length_stepsQase_part_001: "length (stepsQase_part_001 exec qaseSteps) = length qaseSteps"
  by (simp add: stepsQase_part_001_def)

lemma nth_stepsQase:
  "i < length qaseSteps \<Longrightarrow>
     stepsQase exec qaseSteps ! i =
       \<lparr>stepQase.position = position_or_index (qaseSteps ! i) i,
        stepQase.action = caseStep.action (qaseSteps ! i),
        stepQase.expected_result = expected_result_or_default (qaseSteps ! i),
        stepQase.status = step_status (find_assertion (assertions exec) (qaseSteps ! i))\<rparr>"
  by (simp add: stepsQase_def nth_enumerate_eq)

lemma nth_stepsQase_part_000:
  "i < length qaseSteps \<Longrightarrow>
     stepsQase_part_000 exec qaseSteps ! i =
       \<lparr>stepQase_part_000.position = position_or_index (qaseSteps ! i) i,
        stepQase_part_000.data =
          \<lparr>step_data.action = caseStep.action (qaseSteps ! i),
           step_data.expected_result = expected_result_or_default (qaseSteps ! i)\<rparr>,
        stepQase_part_000.execution =
          \<lparr>step_execution.status =
             step_status (find_assertion (assertions exec) (qaseSteps ! i))\<rparr>\<rparr>"
  by (simp add: stepsQase_part_000_def nth_enumerate_eq)

lemma nth_stepsQase_part_001:
  "i < length qaseSteps \<Longrightarrow>
     stepsQase_part_001 exec qaseSteps ! i =
       \<lparr>stepQase.position = position_or_index (qaseSteps ! i) i,
        stepQase.action = caseStep.action (qaseSteps ! i),
        stepQase.expected_result = expected_result_or_default (qaseSteps ! i),
        stepQase.status =
          step_status (find_assertion_part_001 (assertions exec) (qaseSteps ! i))\<rparr>"
  by (simp add: stepsQase_part_001_def nth_enumerate_eq)

lemma stepsQase_status:
  "v \<in> set (stepsQase exec qaseSteps) \<Longrightarrow>
     \<exists>step \<in> set qaseSteps.
       stepQase.status v = step_status (find_assertion (assertions exec) step)"
  by (auto simp: stepsQase_def in_set_enumerate_eq)

lemma stepsQase_part_000_status:
  "v \<in> set (stepsQase_part_000 exec qaseSteps) \<Longrightarrow>
     \<exists>step \<in> set qaseSteps.
       step_execution.status (stepQase_part_000.execution v) =
         step_status (find_assertion (assertions exec) step)"
  by (auto simp: stepsQase_part_000_def in_set_enumerate_eq)

lemma passed_iff:
  "passed (stepsQase exec qaseSteps) =
     (if \<forall>v \<in> set (stepsQase exec qaseSteps). stepQase.status v = ''passed''
      then ''passed'' else ''failed'')"
proof -
  have "stepQase.status v \<noteq> ''failed'' \<longleftrightarrow> stepQase.status v = ''passed''"
    if "v \<in> set (stepsQase exec qaseSteps)" for v
    using stepsQase_status [OF that] step_status_not_failed by auto
  then show ?thesis by (simp add: passed_def list_all_iff)
qed

lemma passed_part_000_iff:
  "passed_part_000 (stepsQase_part_000 exec qaseSteps) =
     (if \<forall>v \<in> set (stepsQase_part_000 exec qaseSteps).
           step_execution.status (stepQase_part_000.execution v) = ''passed''
      then ''passed'' else ''failed'')"
proof -
  have "step_execution.status (stepQase_part_000.execution v) \<noteq> ''failed'' \<longleftrightarrow>
        step_execution.status (stepQase_part_000.execution v) = ''passed''"
    if "v \<in> set (stepsQase_part_000 exec qaseSteps)" for v
    using stepsQase_part_000_status [OF that] step_status_not_failed by auto
  then show ?thesis by (simp add: passed_part_000_def list_all_iff)
qed

text \<open>
  C2, as stated: in every variant the overall status is \<open>passed\<close> exactly when every step
  verdict is, so an empty sequence of case steps gives \<open>passed\<close>. In \<^verbatim>\<open>part_001\<close> an
  execution with a failed assertion and no case steps is reported as \<open>failed\<close>, with no step
  verdict in the payload.
\<close>

theorem passed_part_001_ignores_steps:
  "result.steps
     (result_of_part_001
        \<lparr>execution.name = ''Qase:1'',
         assertions = [\<lparr>assertion.name = ''a'', error = Some \<lparr>message = ''boom''\<rparr>\<rparr>]\<rparr>
        1 []) = []
   \<and> result.status
        (result_of_part_001
           \<lparr>execution.name = ''Qase:1'',
            assertions = [\<lparr>assertion.name = ''a'', error = Some \<lparr>message = ''boom''\<rparr>\<rparr>]\<rparr>
           1 [])
       = ''failed''"
  by (simp add: stepsQase_part_001_def result_of_part_001_def passed_part_001_def)

text \<open>
  C2, amended: in the named file and in \<^verbatim>\<open>part_000\<close> the overall status of a payload is
  \<open>passed\<close> if and only if every step verdict in it is \<open>passed\<close> (so it is \<open>passed\<close> for an
  empty sequence of case steps), and \<open>failed\<close> otherwise. In \<^verbatim>\<open>part_001\<close> the overall status
  does not depend on the fetched case steps or their verdicts: it is \<open>passed\<close> if and only if
  no assertion of the execution has an error, and \<open>failed\<close> otherwise.
\<close>

theorem overall_status:
  "result.status (result_of exec caseId qaseSteps) =
     (if \<forall>v \<in> set (result.steps (result_of exec caseId qaseSteps)).
           stepQase.status v = ''passed''
      then ''passed'' else ''failed'')
   \<and> result.status (result_of exec caseId []) = ''passed''
   \<and> step_execution.status (tc_result.execution (tc_result_of exec caseId qaseSteps)) =
     (if \<forall>v \<in> set (tc_result.steps (tc_result_of exec caseId qaseSteps)).
           step_execution.status (stepQase_part_000.execution v) = ''passed''
      then ''passed'' else ''failed'')
   \<and> step_execution.status (tc_result.execution (tc_result_of exec caseId [])) = ''passed''
   \<and> result.status (result_of_part_001 exec caseId qaseSteps) =
     (if \<forall>a \<in> set (assertions exec). assertion.error a = None
      then ''passed'' else ''failed'')"
proof -
  have a: "result.status (result_of exec caseId qs) =
     (if \<forall>v \<in> set (result.steps (result_of exec caseId qs)). stepQase.status v = ''passed''
      then ''passed'' else ''failed'')" for qs
    using passed_iff [of exec qs] by (simp add: result_of_def)
  have b: "step_execution.status (tc_result.execution (tc_result_of exec caseId qs)) =
     (if \<forall>v \<in> set (tc_result.steps (tc_result_of exec caseId qs)).
           step_execution.status (stepQase_part_000.execution v) = ''passed''
      then ''passed'' else ''failed'')" for qs
    using passed_part_000_iff [of exec qs] by (simp add: tc_result_of_def)
  have c: "result.status (result_of_part_001 exec caseId qaseSteps) =
     (if \<forall>a \<in> set (assertions exec). assertion.error a = None
      then ''passed'' else ''failed'')"
    by (simp add: result_of_part_001_def passed_part_001_def list_all_iff)
  have e: "result.status (result_of exec caseId []) = ''passed''"
    by (simp add: result_of_def passed_def stepsQase_def)
  have f: "step_execution.status (tc_result.execution (tc_result_of exec caseId [])) = ''passed''"
    by (simp add: tc_result_of_def passed_part_000_def stepsQase_part_000_def)
  from a [of qaseSteps] b [of qaseSteps] c e f show ?thesis by blast
qed

theorem overall_status_witness:
  "map stepQase.status
     (result.steps
        (result_of
           \<lparr>execution.name = ''Login Qase:501'',
            assertions = [\<lparr>assertion.name = ''Status code is 200'', error = None\<rparr>]\<rparr>
           501
           [\<lparr>caseStep.position = Some 1, action = Some ''Send request'',
             expected_result = Some ''Status code is 200''\<rparr>]))
     = [''passed'']
   \<and> result.status
        (result_of
           \<lparr>execution.name = ''Login Qase:501'',
            assertions = [\<lparr>assertion.name = ''Status code is 200'', error = None\<rparr>]\<rparr>
           501
           [\<lparr>caseStep.position = Some 1, action = Some ''Send request'',
             expected_result = Some ''Status code is 200''\<rparr>])
       = ''passed''
   \<and> map assertion.error
        (assertions
           \<lparr>execution.name = ''Login Qase:501'',
            assertions = [\<lparr>assertion.name = ''Status code is 200'', error = None\<rparr>]\<rparr>)
       = [None]
   \<and> result.status
        (result_of_part_001
           \<lparr>execution.name = ''Login Qase:501'',
            assertions = [\<lparr>assertion.name = ''Status code is 200'', error = None\<rparr>]\<rparr>
           501
           [\<lparr>caseStep.position = Some 1, action = Some ''Send request'',
             expected_result = Some ''No such assertion''\<rparr>])
       = ''passed''"
proof -
  let ?e = "\<lparr>execution.name = ''Login Qase:501'',
            assertions = [\<lparr>assertion.name = ''Status code is 200'', error = None\<rparr>]\<rparr>"
  let ?s = "\<lparr>caseStep.position = Some 1, action = Some ''Send request'',
             expected_result = Some ''Status code is 200''\<rparr>"
  let ?s' = "\<lparr>caseStep.position = Some 1, action = Some ''Send request'',
             expected_result = Some ''No such assertion''\<rparr>"
  have m: "map stepQase.status (result.steps (result_of ?e 501 [?s])) = [''passed'']"
    by code_simp
  have "\<forall>s \<in> set (map stepQase.status (result.steps (result_of ?e 501 [?s]))). s = ''passed''"
    unfolding m by simp
  then have h: "\<forall>v \<in> set (result.steps (result_of ?e 501 [?s])). stepQase.status v = ''passed''"
    by simp
  from overall_status [of ?e 501 "[?s]"]
  have "result.status (result_of ?e 501 [?s]) =
     (if \<forall>v \<in> set (result.steps (result_of ?e 501 [?s])). stepQase.status v = ''passed''
      then ''passed'' else ''failed'')"
    by (rule conjunct1)
  also have "\<dots> = ''passed''"
    by (rule if_P [OF h])
  finally have one: "result.status (result_of ?e 501 [?s]) = ''passed''" .
  have n: "map assertion.error (assertions ?e) = [None]"
    by simp
  have k: "\<forall>a \<in> set (assertions ?e). assertion.error a = None"
    by simp
  from overall_status [of ?e 501 "[?s']"]
  have "result.status (result_of_part_001 ?e 501 [?s']) =
     (if \<forall>a \<in> set (assertions ?e). assertion.error a = None then ''passed'' else ''failed'')"
    by blast
  also have "\<dots> = ''passed''"
    by (rule if_P [OF k])
  finally have two: "result.status (result_of_part_001 ?e 501 [?s']) = ''passed''" .
  from m one n two show ?thesis by blast
qed

text \<open>
  C3, as stated: every variant compares an assertion's name with the unescaped expected
  result. \<^verbatim>\<open>part_001\<close> has no unescaping: the expected result \<^verbatim>\<open>a\.b\<close> unescapes to the
  name \<^verbatim>\<open>a.b\<close>, and the step finds no assertion there.
\<close>

theorem find_assertion_part_001_raw:
  "Some (assertion.name \<lparr>assertion.name = ''a.b'', error = None\<rparr>)
     = unescapeMarkdown
         (caseStep.expected_result
            \<lparr>caseStep.position = Some 1, action = Some ''send'',
             expected_result = Some [CHR ''a'', CHR 0x5C, CHR ''.'', CHR ''b'']\<rparr>)
   \<and> find_assertion_part_001 [\<lparr>assertion.name = ''a.b'', error = None\<rparr>]
         \<lparr>caseStep.position = Some 1, action = Some ''send'',
          expected_result = Some [CHR ''a'', CHR 0x5C, CHR ''.'', CHR ''b'']\<rparr>
       = None"
  by (simp add: unescapeMarkdown_def md_special_def find_assertion_part_001_def)

text \<open>
  C3, amended: in the named file and in \<^verbatim>\<open>part_000\<close> a case step is matched to an assertion
  exactly when the assertion's name equals, as a string, the step's expected result after
  markdown-unescaping, and among several such assertions the first in assertion order is
  used; the step's verdict is computed from that assertion. In \<^verbatim>\<open>part_001\<close> the name is
  compared with the expected result as it is, without unescaping, again taking the first.
\<close>

theorem find_assertion_first_match:
  "(find_assertion asserts step = Some a \<longleftrightarrow>
      (\<exists>i < length asserts. asserts ! i = a
         \<and> Some (assertion.name a) = unescapeMarkdown (caseStep.expected_result step)
         \<and> (\<forall>j < i. Some (assertion.name (asserts ! j))
                        \<noteq> unescapeMarkdown (caseStep.expected_result step))))
   \<and> (find_assertion asserts step = None \<longleftrightarrow>
      (\<forall>a \<in> set asserts.
          Some (assertion.name a) \<noteq> unescapeMarkdown (caseStep.expected_result step)))
   \<and> (i < length qaseSteps \<longrightarrow>
        stepQase.status (stepsQase exec qaseSteps ! i)
          = step_status (find_assertion (assertions exec) (qaseSteps ! i))
      \<and> step_execution.status (stepQase_part_000.execution (stepsQase_part_000 exec qaseSteps ! i))
          = step_status (find_assertion (assertions exec) (qaseSteps ! i))
      \<and> stepQase.status (stepsQase_part_001 exec qaseSteps ! i)
          = step_status (find_assertion_part_001 (assertions exec) (qaseSteps ! i)))
   \<and> (find_assertion_part_001 asserts step = Some a \<longleftrightarrow>
      (\<exists>i < length asserts. asserts ! i = a
         \<and> Some (assertion.name a) = caseStep.expected_result step
         \<and> (\<forall>j < i. Some (assertion.name (asserts ! j)) \<noteq> caseStep.expected_result step)))
   \<and> (find_assertion_part_001 asserts step = None \<longleftrightarrow>
      (\<forall>a \<in> set asserts. Some (assertion.name a) \<noteq> caseStep.expected_result step))"
proof -
  have a: "find_assertion asserts step = Some a \<longleftrightarrow>
      (\<exists>i < length asserts. asserts ! i = a
         \<and> Some (assertion.name a) = unescapeMarkdown (caseStep.expected_result step)
         \<and> (\<forall>j < i. Some (assertion.name (asserts ! j))
                        \<noteq> unescapeMarkdown (caseStep.expected_result step)))"
    unfolding find_assertion_def find_Some_iff by blast
  have b: "find_assertion asserts step = None \<longleftrightarrow>
      (\<forall>a \<in> set asserts.
          Some (assertion.name a) \<noteq> unescapeMarkdown (caseStep.expected_result step))"
    unfolding find_assertion_def find_None_iff by blast
  have c: "find_assertion_part_001 asserts step = Some a \<longleftrightarrow>
      (\<exists>i < length asserts. asserts ! i = a
         \<and> Some (assertion.name a) = caseStep.expected_result step
         \<and> (\<forall>j < i. Some (assertion.name (asserts ! j)) \<noteq> caseStep.expected_result step))"
    unfolding find_assertion_part_001_def find_Some_iff by blast
  have d: "find_assertion_part_001 asserts step = None \<longleftrightarrow>
      (\<forall>a \<in> set asserts. Some (assertion.name a) \<noteq> caseStep.expected_result step)"
    unfolding find_assertion_part_001_def find_None_iff by blast
  have e: "i < length qaseSteps \<longrightarrow>
        stepQase.status (stepsQase exec qaseSteps ! i)
          = step_status (find_assertion (assertions exec) (qaseSteps ! i))
      \<and> step_execution.status (stepQase_part_000.execution (stepsQase_part_000 exec qaseSteps ! i))
          = step_status (find_assertion (assertions exec) (qaseSteps ! i))
      \<and> stepQase.status (stepsQase_part_001 exec qaseSteps ! i)
          = step_status (find_assertion_part_001 (assertions exec) (qaseSteps ! i))"
    by (simp add: nth_stepsQase nth_stepsQase_part_000 nth_stepsQase_part_001)
  from a b c d e show ?thesis by (intro conjI)
qed

theorem find_assertion_first_match_witness:
  "find_assertion
     [\<lparr>assertion.name = ''x'', error = None\<rparr>,
      \<lparr>assertion.name = ''a.b'', error = None\<rparr>,
      \<lparr>assertion.name = ''a.b'', error = Some \<lparr>message = ''boom''\<rparr>\<rparr>]
     \<lparr>caseStep.position = Some 1, action = Some ''send'',
      expected_result = Some [CHR ''a'', CHR 0x5C, CHR ''.'', CHR ''b'']\<rparr>
     = Some \<lparr>assertion.name = ''a.b'', error = None\<rparr>
   \<and> stepQase.status
        (stepsQase
           \<lparr>execution.name = ''Qase:7'',
            assertions =
              [\<lparr>assertion.name = ''x'', error = None\<rparr>,
               \<lparr>assertion.name = ''a.b'', error = None\<rparr>,
               \<lparr>assertion.name = ''a.b'', error = Some \<lparr>message = ''boom''\<rparr>\<rparr>]\<rparr>
           [\<lparr>caseStep.position = Some 1, action = Some ''send'',
             expected_result = Some [CHR ''a'', CHR 0x5C, CHR ''.'', CHR ''b'']\<rparr>] ! 0)
       = ''passed''
   \<and> find_assertion [\<lparr>assertion.name = ''x'', error = None\<rparr>]
        \<lparr>caseStep.position = Some 1, action = Some ''send'',
         expected_result = Some [CHR ''a'', CHR 0x5C, CHR ''.'', CHR ''b'']\<rparr>
       = None
   \<and> find_assertion_part_001
        [\<lparr>assertion.name = ''a.b'', error = None\<rparr>,
         \<lparr>assertion.name = [CHR ''a'', CHR 0x5C, CHR ''.'', CHR ''b''], error = None\<rparr>]
        \<lparr>caseStep.position = Some 1, action = Some ''send'',
         expected_result = Some [CHR ''a'', CHR 0x5C, CHR ''.'', CHR ''b'']\<rparr>
       = Some \<lparr>assertion.name = [CHR ''a'', CHR 0x5C, CHR ''.'', CHR ''b''], error = None\<rparr>"
proof -
  let ?a1 = "\<lparr>assertion.name = ''x'', error = None\<rparr>"
  let ?a2 = "\<lparr>assertion.name = ''a.b'', error = None\<rparr>"
  let ?a3 = "\<lparr>assertion.name = ''a.b'', error = Some \<lparr>message = ''boom''\<rparr>\<rparr>"
  let ?a4 = "\<lparr>assertion.name = [CHR ''a'', CHR 0x5C, CHR ''.'', CHR ''b''], error = None\<rparr>"
  let ?s = "\<lparr>caseStep.position = Some 1, action = Some ''send'',
             expected_result = Some [CHR ''a'', CHR 0x5C, CHR ''.'', CHR ''b'']\<rparr>"
  let ?e = "\<lparr>execution.name = ''Qase:7'', assertions = [?a1, ?a2, ?a3]\<rparr>"
  note inst = find_assertion_first_match [of "[?a1, ?a2, ?a3]" ?s ?a2 0 "[?s]" ?e]
  have u: "unescapeMarkdown (caseStep.expected_result ?s) = Some ''a.b''"
    by (simp add: unescapeMarkdown_def md_special_def)
  have "\<exists>i < length [?a1, ?a2, ?a3]. [?a1, ?a2, ?a3] ! i = ?a2
         \<and> Some (assertion.name ?a2) = unescapeMarkdown (caseStep.expected_result ?s)
         \<and> (\<forall>j < i. Some (assertion.name ([?a1, ?a2, ?a3] ! j))
                        \<noteq> unescapeMarkdown (caseStep.expected_result ?s))"
    unfolding u by (rule exI [of _ 1]) simp
  with inst have found: "find_assertion [?a1, ?a2, ?a3] ?s = Some ?a2"
    by blast
  have "(0::nat) < length [?s]" by simp
  with inst have "stepQase.status (stepsQase ?e [?s] ! 0)
          = step_status (find_assertion (assertions ?e) ([?s] ! 0))"
    by blast
  also have "\<dots> = step_status (find_assertion [?a1, ?a2, ?a3] ?s)"
    by simp
  also have "\<dots> = ''passed''"
    unfolding found by (simp add: step_status_def)
  finally have st: "stepQase.status (stepsQase ?e [?s] ! 0) = ''passed''" .
  have "\<forall>a \<in> set [?a1].
          Some (assertion.name a) \<noteq> unescapeMarkdown (caseStep.expected_result ?s)"
    unfolding u by simp
  with find_assertion_first_match [of "[?a1]" ?s ?a1 0 "[?s]" ?e]
  have none: "find_assertion [?a1] ?s = None"
    by blast
  have "\<exists>i < length [?a2, ?a4]. [?a2, ?a4] ! i = ?a4
         \<and> Some (assertion.name ?a4) = caseStep.expected_result ?s
         \<and> (\<forall>j < i. Some (assertion.name ([?a2, ?a4] ! j)) \<noteq> caseStep.expected_result ?s)"
    by (rule exI [of _ 1]) simp
  with find_assertion_first_match [of "[?a2, ?a4]" ?s ?a4 0 "[?s]" ?e]
  have raw: "find_assertion_part_001 [?a2, ?a4] ?s = Some ?a4"
    by blast
  from found st none raw show ?thesis by blast
qed

lemma find_assertion_no_match:
  "\<forall>a \<in> set asserts. Some (assertion.name a) \<noteq> unescapeMarkdown (caseStep.expected_result step)
     \<Longrightarrow> step_status (find_assertion asserts step) = ''failed''"
proof -
  assume "\<forall>a \<in> set asserts.
      Some (assertion.name a) \<noteq> unescapeMarkdown (caseStep.expected_result step)"
  then have "find_assertion asserts step = None"
    unfolding find_assertion_def find_None_iff by blast
  then show ?thesis by (simp add: step_status_def)
qed

lemma hd_stepsQase_in_set:
  "qaseSteps \<noteq> [] \<Longrightarrow> \<exists>v. v \<in> set (stepsQase exec qaseSteps)"
  using length_stepsQase [of exec qaseSteps] by (cases "stepsQase exec qaseSteps") auto

lemma hd_stepsQase_part_000_in_set:
  "qaseSteps \<noteq> [] \<Longrightarrow> \<exists>v. v \<in> set (stepsQase_part_000 exec qaseSteps)"
  using length_stepsQase_part_000 [of exec qaseSteps]
  by (cases "stepsQase_part_000 exec qaseSteps") auto

text \<open>
  C5: when no case step matches any assertion, every step verdict is \<open>failed\<close>; the overall
  status is \<open>failed\<close> for one step or more and \<open>passed\<close> for none.
\<close>

theorem unmatched_steps_failed:
  assumes "\<forall>step \<in> set qaseSteps. \<forall>a \<in> set (assertions exec).
             Some (assertion.name a) \<noteq> unescapeMarkdown (caseStep.expected_result step)"
  shows "length (stepsQase exec qaseSteps) = length qaseSteps
   \<and> (\<forall>v \<in> set (stepsQase exec qaseSteps). stepQase.status v = ''failed'')
   \<and> result.status (result_of exec caseId qaseSteps)
       = (if qaseSteps = [] then ''passed'' else ''failed'')
   \<and> length (stepsQase_part_000 exec qaseSteps) = length qaseSteps
   \<and> (\<forall>v \<in> set (stepsQase_part_000 exec qaseSteps).
         step_execution.status (stepQase_part_000.execution v) = ''failed'')
   \<and> step_execution.status (tc_result.execution (tc_result_of exec caseId qaseSteps))
       = (if qaseSteps = [] then ''passed'' else ''failed'')"
proof -
  have st: "step_status (find_assertion (assertions exec) step) = ''failed''"
    if "step \<in> set qaseSteps" for step
    using assms that by (intro find_assertion_no_match) blast
  have a: "\<forall>v \<in> set (stepsQase exec qaseSteps). stepQase.status v = ''failed''"
    using stepsQase_status [of _ exec qaseSteps] st by metis
  have b: "\<forall>v \<in> set (stepsQase_part_000 exec qaseSteps).
         step_execution.status (stepQase_part_000.execution v) = ''failed''"
    using stepsQase_part_000_status [of _ exec qaseSteps] st by metis
  have c: "result.status (result_of exec caseId qaseSteps)
       = (if qaseSteps = [] then ''passed'' else ''failed'')"
  proof (cases "qaseSteps = []")
    case True
    then show ?thesis by (simp add: result_of_def passed_def stepsQase_def)
  next
    case False
    then obtain v where "v \<in> set (stepsQase exec qaseSteps)"
      using hd_stepsQase_in_set by blast
    with a have "\<not> (\<forall>v \<in> set (stepsQase exec qaseSteps). stepQase.status v = ''passed'')"
      using passed_neq_failed by metis
    then have "passed (stepsQase exec qaseSteps) = ''failed''"
      unfolding passed_iff by (rule if_not_P)
    with False show ?thesis by (simp add: result_of_def)
  qed
  have d: "step_execution.status (tc_result.execution (tc_result_of exec caseId qaseSteps))
       = (if qaseSteps = [] then ''passed'' else ''failed'')"
  proof (cases "qaseSteps = []")
    case True
    then show ?thesis by (simp add: tc_result_of_def passed_part_000_def stepsQase_part_000_def)
  next
    case False
    then obtain v where "v \<in> set (stepsQase_part_000 exec qaseSteps)"
      using hd_stepsQase_part_000_in_set by blast
    with b have "\<not> (\<forall>v \<in> set (stepsQase_part_000 exec qaseSteps).
        step_execution.status (stepQase_part_000.execution v) = ''passed'')"
      using passed_neq_failed by metis
    then have "passed_part_000 (stepsQase_part_000 exec qaseSteps) = ''failed''"
      unfolding passed_part_000_iff by (rule if_not_P)
    with False show ?thesis by (simp add: tc_result_of_def)
  qed
  from a b c d show ?thesis
    by (simp only: length_stepsQase length_stepsQase_part_000 simp_thms)
qed

theorem unmatched_steps_failed_witness:
  "find_assertion [\<lparr>assertion.name = ''Body is JSON'', error = None\<rparr>]
     \<lparr>caseStep.position = Some 1, action = Some ''send'',
      expected_result = Some ''Status code is 200''\<rparr> = None
   \<and> map stepQase.status
        (stepsQase
           \<lparr>execution.name = ''Qase:7'',
            assertions = [\<lparr>assertion.name = ''Body is JSON'', error = None\<rparr>]\<rparr>
           [\<lparr>caseStep.position = Some 1, action = Some ''send'',
             expected_result = Some ''Status code is 200''\<rparr>])
       = [''failed'']
   \<and> result.status
        (result_of
           \<lparr>execution.name = ''Qase:7'',
            assertions = [\<lparr>assertion.name = ''Body is JSON'', error = None\<rparr>]\<rparr>
           7
           [\<lparr>caseStep.position = Some 1, action = Some ''send'',
             expected_result = Some ''Status code is 200''\<rparr>])
       = ''failed''"
proof -
  let ?a = "\<lparr>assertion.name = ''Body is JSON'', error = None\<rparr>"
  let ?e = "\<lparr>execution.name = ''Qase:7'', assertions = [?a]\<rparr>"
  let ?s = "\<lparr>caseStep.position = Some 1, action = Some ''send'',
             expected_result = Some ''Status code is 200''\<rparr>"
  have f: "find_assertion [?a] ?s = None"
    by code_simp
  have m: "map stepQase.status (stepsQase ?e [?s]) = [''failed'']"
    by code_simp
  have h: "\<forall>step \<in> set [?s]. \<forall>a \<in> set (assertions ?e).
             Some (assertion.name a) \<noteq> unescapeMarkdown (caseStep.expected_result step)"
    by code_simp
  from unmatched_steps_failed [OF h, of 7]
  have "result.status (result_of ?e 7 [?s]) = (if [?s] = [] then ''passed'' else ''failed'')"
    by blast
  then have "result.status (result_of ?e 7 [?s]) = ''failed''"
    by (simp only: list.distinct if_False)
  with f m show ?thesis by blast
qed

lemma position_or_index_ge_1: "Suc 0 \<le> position_or_index step index"
  by (simp add: position_or_index_def split: option.split)

lemma position_or_index_zero:
  "caseStep.position step = Some 0 \<Longrightarrow> position_or_index step index = index + 1"
  by (simp add: position_or_index_def)

text \<open>
  C10: a case step whose position is the number 0 is given the position index + 1, as a
  step without a position is; every position in the step verdicts is at least 1.
\<close>

theorem position_zero_defaulted:
  assumes "i < length qaseSteps"
  shows "(caseStep.position (qaseSteps ! i) = Some 0 \<longrightarrow>
            stepQase.position (stepsQase exec qaseSteps ! i) = i + 1
          \<and> stepQase.position (stepsQase_part_001 exec qaseSteps ! i) = i + 1
          \<and> stepQase_part_000.position (stepsQase_part_000 exec qaseSteps ! i) = i + 1)
   \<and> 1 \<le> stepQase.position (stepsQase exec qaseSteps ! i)
   \<and> 1 \<le> stepQase.position (stepsQase_part_001 exec qaseSteps ! i)
   \<and> 1 \<le> stepQase_part_000.position (stepsQase_part_000 exec qaseSteps ! i)"
  using assms
  by (simp add: nth_stepsQase nth_stepsQase_part_000 nth_stepsQase_part_001
        position_or_index_ge_1 position_or_index_zero)

theorem position_zero_defaulted_witness:
  "stepQase.position
     (stepsQase \<lparr>execution.name = ''Qase:7'', assertions = []\<rparr>
        [\<lparr>caseStep.position = Some 4, action = None, expected_result = None\<rparr>,
         \<lparr>caseStep.position = Some 0, action = None, expected_result = None\<rparr>] ! 1) = 2"
proof -
  let ?qs = "[\<lparr>caseStep.position = Some 4, action = None, expected_result = None\<rparr>,
         \<lparr>caseStep.position = Some 0, action = None, expected_result = None\<rparr>]"
  have i: "1 < length ?qs" by simp
  have z: "caseStep.position (?qs ! 1) = Some 0" by simp
  from position_zero_defaulted [OF i, of "\<lparr>execution.name = ''Qase:7'', assertions = []\<rparr>"] z
  have "stepQase.position
     (stepsQase \<lparr>execution.name = ''Qase:7'', assertions = []\<rparr> ?qs ! 1) = 1 + 1"
    by blast
  then show ?thesis by simp
qed

section \<open>Properties of getCaseSteps\<close>

text \<open>
  C7: the fetcher hands back the steps of the response in their order; a response with an
  empty list of steps, or with no steps field, gives the empty sequence; the fetcher fails
  only when the request fails.
\<close>

theorem getCaseSteps_steps:
  "(axios_get caseId = Inr (Some qaseSteps) \<longrightarrow> getCaseSteps axios_get caseId = Inr qaseSteps)
   \<and> (axios_get caseId = Inr (Some []) \<longrightarrow> getCaseSteps axios_get caseId = Inr [])
   \<and> (axios_get caseId = Inr None \<longrightarrow> getCaseSteps axios_get caseId = Inr [])
   \<and> ((\<exists>e. getCaseSteps axios_get caseId = Inl e) \<longleftrightarrow> (\<exists>e. axios_get caseId = Inl e))"
  by (auto simp: getCaseSteps_def split: sum.splits option.splits)

theorem getCaseSteps_steps_witness:
  "getCaseSteps
     (\<lambda>c. if c = 501
          then Inr (Some [\<lparr>caseStep.position = Some 1, action = Some ''Send request'',
                           expected_result = Some ''Status code is 200''\<rparr>,
                          \<lparr>caseStep.position = Some 2, action = Some ''Read body'',
                           expected_result = Some ''Body is JSON''\<rparr>])
          else if c = 502 then Inl RemoteError else Inr None) 501
     = Inr [\<lparr>caseStep.position = Some 1, action = Some ''Send request'',
             expected_result = Some ''Status code is 200''\<rparr>,
            \<lparr>caseStep.position = Some 2, action = Some ''Read body'',
             expected_result = Some ''Body is JSON''\<rparr>]
   \<and> getCaseSteps
     (\<lambda>c. if c = 501
          then Inr (Some [\<lparr>caseStep.position = Some 1, action = Some ''Send request'',
                           expected_result = Some ''Status code is 200''\<rparr>,
                          \<lparr>caseStep.position = Some 2, action = Some ''Read body'',
                           expected_result = Some ''Body is JSON''\<rparr>])
          else if c = 502 then Inl RemoteError else Inr None) 7
     = Inr []
   \<and> (\<exists>e. getCaseSteps
     (\<lambda>c. if c = 501
          then Inr (Some [\<lparr>caseStep.position = Some 1, action = Some ''Send request'',
                           expected_result = Some ''Status code is 200''\<rparr>,
                          \<lparr>caseStep.position = Some 2, action = Some ''Read body'',
                           expected_result = Some ''Body is JSON''\<rparr>])
          else if c = 502 then Inl RemoteError else Inr None) 502
     = Inl e)"
proof -
  let ?s1 = "\<lparr>caseStep.position = Some 1, action = Some ''Send request'',
                           expected_result = Some ''Status code is 200''\<rparr>"
  let ?s2 = "\<lparr>caseStep.position = Some 2, action = Some ''Read body'',
                           expected_result = Some ''Body is JSON''\<rparr>"
  let ?g = "\<lambda>c::nat. if c = 501 then Inr (Some [?s1, ?s2])
              else if c = 502 then Inl RemoteError
              else (Inr None :: error + caseStep list option)"
  have a: "?g 501 = Inr (Some [?s1, ?s2])" by simp
  have b: "?g 7 = Inr None" by simp
  have c: "\<exists>e. ?g 502 = Inl e" by simp
  from getCaseSteps_steps [of ?g 501 "[?s1, ?s2]"] a
  have one: "getCaseSteps ?g 501 = Inr [?s1, ?s2]" by blast
  from getCaseSteps_steps [of ?g 7 "[]"] b
  have two: "getCaseSteps ?g 7 = Inr []" by blast
  from getCaseSteps_steps [of ?g 502 "[]"] c
  have three: "\<exists>e. getCaseSteps ?g 502 = Inl e" by blast
  from one two three show ?thesis by blast
qed

section \<open>Properties of the comment\<close>

lemma split_lines_plain: "CHR 0x0A \<notin> set x \<Longrightarrow> split_lines x = [x]"
  by (induction x) auto

lemma split_lines_append:
  "CHR 0x0A \<notin> set x \<Longrightarrow> split_lines (x @ CHR 0x0A # rest) = x # split_lines rest"
  by (induction x) auto

lemma split_lines_join:
  "xs \<noteq> [] \<Longrightarrow> \<forall>x \<in> set xs. CHR 0x0A \<notin> set x \<Longrightarrow> split_lines (join [CHR 0x0A] xs) = xs"
proof (induction "[CHR 0x0A]" xs rule: join.induct)
  case 1
  then show ?case by simp
next
  case (2 x)
  then show ?case by (simp add: split_lines_plain)
next
  case (3 x y ys)
  then show ?case by (simp add: split_lines_append)
qed

lemma comment_line_no_newline:
  "CHR 0x0A \<notin> set (assertion.name a) \<Longrightarrow>
   (\<forall>e. assertion.error a = Some e \<longrightarrow> CHR 0x0A \<notin> set (message e)) \<Longrightarrow>
   CHR 0x0A \<notin> set (comment_line a)"
  by (simp add: comment_line_def check_mark_def cross_mark_def split: option.split)

text \<open>
  C8: the comment is the rendered lines of all assertions of the execution, in assertion
  order, joined by line feeds: the check mark and the name for an assertion without error,
  the cross, the name, a colon and the error's message for one with an error. The fetched
  case steps have no part in it. Where no name and no message holds a line feed, the lines
  of the comment are these rendered lines, one per assertion.
\<close>

theorem render_comment_lines:
  "render_comment exec =
     join [CHR 0x0A]
       (map (\<lambda>a. case assertion.error a of
                    None \<Rightarrow> check_mark @ '' '' @ assertion.name a
                  | Some e \<Rightarrow> cross_mark @ '' '' @ assertion.name a @ '': '' @ message e)
          (assertions exec))
   \<and> (assertions exec \<noteq> [] \<and>
       (\<forall>a \<in> set (assertions exec). CHR 0x0A \<notin> set (assertion.name a) \<and>
          (\<forall>e. assertion.error a = Some e \<longrightarrow> CHR 0x0A \<notin> set (message e))) \<longrightarrow>
       split_lines (render_comment exec) =
         map (\<lambda>a. case assertion.error a of
                    None \<Rightarrow> check_mark @ '' '' @ assertion.name a
                  | Some e \<Rightarrow> cross_mark @ '' '' @ assertion.name a @ '': '' @ message e)
           (assertions exec))
   \<and> result.comment (result_of exec caseId qaseSteps) = render_comment exec
   \<and> result_fields.description (tc_result.fields' (tc_result_of exec caseId qaseSteps))
       = render_comment exec
   \<and> result.comment (result_of_part_001 exec caseId qaseSteps) = render_comment exec"
proof -
  have line: "comment_line =
     (\<lambda>a. case assertion.error a of
                    None \<Rightarrow> check_mark @ '' '' @ assertion.name a
                  | Some e \<Rightarrow> cross_mark @ '' '' @ assertion.name a @ '': '' @ message e)"
    by (rule ext) (simp add: comment_line_def split: option.split)
  have a: "render_comment exec = join [CHR 0x0A] (map comment_line (assertions exec))"
    by (simp add: render_comment_def)
  have b: "split_lines (render_comment exec) = map comment_line (assertions exec)"
    if "assertions exec \<noteq> []"
      and "\<forall>a \<in> set (assertions exec). CHR 0x0A \<notin> set (assertion.name a) \<and>
          (\<forall>e. assertion.error a = Some e \<longrightarrow> CHR 0x0A \<notin> set (message e))"
    unfolding a using that by (intro split_lines_join) (auto simp: comment_line_no_newline)
  have c: "result.comment (result_of exec caseId qaseSteps) = render_comment exec"
    by (simp add: result_of_def)
  have d: "result_fields.description (tc_result.fields' (tc_result_of exec caseId qaseSteps))
       = render_comment exec"
    by (simp add: tc_result_of_def)
  have e: "result.comment (result_of_part_001 exec caseId qaseSteps) = render_comment exec"
    by (simp add: result_of_part_001_def)
  from a b c d e show ?thesis unfolding line by blast
qed

theorem render_comment_lines_witness:
  "render_comment
     \<lparr>execution.name = ''Login Qase:501'',
      assertions = [\<lparr>assertion.name = ''Status code is 200'', error = None\<rparr>,
                    \<lparr>assertion.name = ''Body is JSON'',
                     error = Some \<lparr>message = ''expected JSON''\<rparr>\<rparr>]\<rparr>
     = [CHR 0xE2, CHR 0x9C, CHR 0x85] @ '' Status code is 200'' @ [CHR 0x0A]
       @ [CHR 0xE2, CHR 0x9D, CHR 0x8C] @ '' Body is JSON: expected JSON''
   \<and> split_lines (render_comment
     \<lparr>execution.name = ''Login Qase:501'',
      assertions = [\<lparr>assertion.name = ''Status code is 200'', error = None\<rparr>,
                    \<lparr>assertion.name = ''Body is JSON'',
                     error = Some \<lparr>message = ''expected JSON''\<rparr>\<rparr>]\<rparr>)
     = [[CHR 0xE2, CHR 0x9C, CHR 0x85] @ '' Status code is 200'',
        [CHR 0xE2, CHR 0x9D, CHR 0x8C] @ '' Body is JSON: expected JSON'']"
proof -
  let ?a1 = "\<lparr>assertion.name = ''Status code is 200'', error = None\<rparr>"
  let ?a2 = "\<lparr>assertion.name = ''Body is JSON'', error = Some \<lparr>message = ''expected JSON''\<rparr>\<rparr>"
  let ?e = "\<lparr>execution.name = ''Login Qase:501'', assertions = [?a1, ?a2]\<rparr>"
  note inst = render_comment_lines [of ?e 501 "[]"]
  have h: "assertions ?e \<noteq> [] \<and>
       (\<forall>a \<in> set (assertions ?e). CHR 0x0A \<notin> set (assertion.name a) \<and>
          (\<forall>e. assertion.error a = Some e \<longrightarrow> CHR 0x0A \<notin> set (message e)))"
    by simp
  from inst have "render_comment ?e =
     join [CHR 0x0A]
       (map (\<lambda>a. case assertion.error a of
                    None \<Rightarrow> check_mark @ '' '' @ assertion.name a
                  | Some e \<Rightarrow> cross_mark @ '' '' @ assertion.name a @ '': '' @ message e)
          (assertions ?e))"
    by (rule conjunct1)
  then have one: "render_comment ?e
     = [CHR 0xE2, CHR 0x9C, CHR 0x85] @ '' Status code is 200'' @ [CHR 0x0A]
       @ [CHR 0xE2, CHR 0x9D, CHR 0x8C] @ '' Body is JSON: expected JSON''"
    by (simp add: check_mark_def cross_mark_def)
  from inst h have "split_lines (render_comment ?e) =
         map (\<lambda>a. case assertion.error a of
                    None \<Rightarrow> check_mark @ '' '' @ assertion.name a
                  | Some e \<Rightarrow> cross_mark @ '' '' @ assertion.name a @ '': '' @ message e)
           (assertions ?e)"
    by blast
  then have two: "split_lines (render_comment ?e)
     = [[CHR 0xE2, CHR 0x9C, CHR 0x85] @ '' Status code is 200'',
        [CHR 0xE2, CHR 0x9D, CHR 0x8C] @ '' Body is JSON: expected JSON'']"
    by (simp add: check_mark_def cross_mark_def)
  from one two show ?thesis by (rule conjI)
qed

section \<open>Properties of submitResults\<close>










end
